theory Spec2Isabelle
  imports Main "HOL-Library.Word"
begin

section \<open>Platform and configuration\<close>

text \<open>
  The firmware targets the ESP32, where \<^verbatim>\<open>unsigned long\<close> has 32 bits: the value of
  \<^verbatim>\<open>millis()\<close> and every stored timestamp is a \<open>32 word\<close>, and the elapsed-time
  subtractions \<^verbatim>\<open>now - _lastUpdate\<close> wrap around as they do on the device.
  The two timing constants of \<^verbatim>\<open>config.h\<close> that the managers use are compared with
  \<^verbatim>\<open>unsigned long\<close> values, hence converted to that type.
\<close>

type_synonym millis_t = "32 word"

definition RECONNECT_DELAY_MS :: millis_t where
  "RECONNECT_DELAY_MS = 5000"

definition WIFI_TIMEOUT_MS :: millis_t where
  "WIFI_TIMEOUT_MS = 30000"

text \<open>
  The remainder operator of C++ truncates towards zero (the sign of the result is the sign
  of the dividend), unlike \<open>mod\<close> on \<open>int\<close>.
\<close>

definition c_rem :: "int \<Rightarrow> int \<Rightarrow> int" where
  "c_rem a b = sgn a * (\<bar>a\<bar> mod \<bar>b\<bar>)"

section \<open>LEDIndicator (utils/led\_indicator.h, utils/led\_indicator.cpp)\<close>

datatype LEDPattern = OFF | ON | BLINK_SLOW | BLINK_FAST | PULSE | DOUBLE_BLINK

text \<open>
  The output line is observed through the calls the class makes to the Arduino core:
  \<^verbatim>\<open>pinMode(pin, OUTPUT)\<close> and \<^verbatim>\<open>digitalWrite(pin, level)\<close>, recorded in call order.
\<close>

datatype hw_event = PinModeOutput "8 word" | DigitalWrite "8 word" bool

type_synonym hw = "hw_event list"

text \<open>
  The private fields of the class. \<^verbatim>\<open>_blinkPhase\<close> is a C++ \<^verbatim>\<open>int\<close>; the code keeps
  it between 0 and 5, far from overflow, so it is an unbounded \<open>int\<close> here.
\<close>

record LEDIndicator =
  pin :: "8 word"
  activeLow :: bool
  pattern :: LEDPattern
  ledState :: bool
  lastUpdate :: millis_t
  blinkPhase :: int


definition applyState :: "bool \<Rightarrow> LEDIndicator \<Rightarrow> hw \<Rightarrow> LEDIndicator \<times> hw" where
  "applyState st l h =
     (l\<lparr>ledState := st\<rparr>,
      h @ [DigitalWrite (pin l) (if activeLow l then \<not> st else st)])"

definition LEDIndicator_begin :: "LEDIndicator \<Rightarrow> hw \<Rightarrow> LEDIndicator \<times> hw" where
  "LEDIndicator_begin l h = applyState False l (h @ [PinModeOutput (pin l)])"

definition toggle :: "LEDIndicator \<Rightarrow> hw \<Rightarrow> LEDIndicator \<times> hw" where
  "toggle l h = (let l1 = l\<lparr>ledState := \<not> ledState l\<rparr> in applyState (ledState l1) l1 h)"

definition setPattern :: "LEDPattern \<Rightarrow> LEDIndicator \<Rightarrow> LEDIndicator" where
  "setPattern p l = l\<lparr>pattern := p, lastUpdate := 0, blinkPhase := 0\<rparr>"

definition LEDIndicator_on :: "LEDIndicator \<Rightarrow> hw \<Rightarrow> LEDIndicator \<times> hw" where
  "LEDIndicator_on l h = applyState True (l\<lparr>pattern := ON\<rparr>) h"

definition LEDIndicator_off :: "LEDIndicator \<Rightarrow> hw \<Rightarrow> LEDIndicator \<times> hw" where
  "LEDIndicator_off l h = applyState False (l\<lparr>pattern := OFF\<rparr>) h"

text \<open>
  \<^verbatim>\<open>LEDIndicator::loop\<close>. Its first statement reads the clock once; \<open>now\<close> is the value
  that \<^verbatim>\<open>millis()\<close> returned.
\<close>

definition LEDIndicator_loop :: "millis_t \<Rightarrow> LEDIndicator \<Rightarrow> hw \<Rightarrow> LEDIndicator \<times> hw" where
  "LEDIndicator_loop now l h =
     (case pattern l of
        OFF \<Rightarrow> applyState False l h
      | ON \<Rightarrow> applyState True l h
      | BLINK_SLOW \<Rightarrow>
          if now - lastUpdate l > 1000 then toggle (l\<lparr>lastUpdate := now\<rparr>) h else (l, h)
      | BLINK_FAST \<Rightarrow>
          if now - lastUpdate l > 200 then toggle (l\<lparr>lastUpdate := now\<rparr>) h else (l, h)
      | PULSE \<Rightarrow>
          if now - lastUpdate l > 50 then toggle (l\<lparr>lastUpdate := now\<rparr>) h else (l, h)
      | DOUBLE_BLINK \<Rightarrow>
          if now - lastUpdate l > (if blinkPhase l < 4 then 100 else 500) then
            (case toggle (l\<lparr>lastUpdate := now\<rparr>) h of
               (l1, h1) \<Rightarrow> (l1\<lparr>blinkPhase := c_rem (blinkPhase l1 + 1) 6\<rparr>, h1))
          else (l, h))"

text \<open>
  The public operations that touch the output line, and one step of any of them.
\<close>

datatype led_op = LedBegin | LedLoop millis_t | LedOn | LedOff | LedToggle | LedSetPattern LEDPattern

fun led_exec :: "led_op \<Rightarrow> LEDIndicator \<times> hw \<Rightarrow> LEDIndicator \<times> hw" where
  "led_exec LedBegin (l, h) = LEDIndicator_begin l h"
| "led_exec (LedLoop now) (l, h) = LEDIndicator_loop now l h"
| "led_exec LedOn (l, h) = LEDIndicator_on l h"
| "led_exec LedOff (l, h) = LEDIndicator_off l h"
| "led_exec LedToggle (l, h) = toggle l h"
| "led_exec (LedSetPattern p) (l, h) = (setPattern p l, h)"

text \<open>The \<^verbatim>\<open>digitalWrite\<close> calls of a trace, as pairs of pin and physical level.\<close>

fun writes :: "hw \<Rightarrow> (8 word \<times> bool) list" where
  "writes [] = []"
| "writes (PinModeOutput p # h) = writes h"
| "writes (DigitalWrite p v # h) = (p, v) # writes h"





section \<open>WiFiManager (wifi/wifi\_manager.h, wifi/wifi\_manager.cpp)\<close>

text \<open>
  What the manager sees of the platform:
  \<^item> \<open>clock\<close>, the milliseconds since boot; \<^verbatim>\<open>millis()\<close> returns it on 32 bits, and
    \<^verbatim>\<open>delay(n)\<close> advances it by \<open>n\<close>;
  \<^item> the adapter: \<open>adapter w i\<close> is what call number \<open>i\<close> of \<^verbatim>\<open>WiFi.status()\<close> reports
    (\<open>True\<close> for \<^verbatim>\<open>WL_CONNECTED\<close>), any sequence of values, and \<open>polls\<close> counts the calls
    made so far;
  \<^item> \<open>calls\<close>, the commands given to the adapter, \<^verbatim>\<open>WiFi.mode(WIFI_STA)\<close>,
    \<^verbatim>\<open>WiFi.begin(ssid, password)\<close> and \<^verbatim>\<open>WiFi.disconnect()\<close>, in call order, each with the
    clock value at which it was given; what the adapter reports afterwards is in the
    sequence above;
  \<^item> \<open>observer\<close>, the state that the registered callback acts on; the callback does not
    call back into the manager (the one of \<^verbatim>\<open>main.cpp\<close> sets the LED pattern and prints).
  Time passes in \<^verbatim>\<open>delay\<close> only, inside \<^verbatim>\<open>begin\<close> and between the calls made on the
  manager. Serial output is left out.
\<close>

datatype adapter_call =
  WiFi_mode_STA | WiFi_begin "string option" "string option" | WiFi_disconnect

record 'o world =
  clock :: nat
  polls :: nat
  adapter :: "nat \<Rightarrow> bool"
  calls :: "(nat \<times> adapter_call) list"
  observer :: 'o

definition millis :: "'o world \<Rightarrow> millis_t" where
  "millis w = of_nat (clock w)"

definition delay :: "nat \<Rightarrow> 'o world \<Rightarrow> 'o world" where
  "delay n w = w\<lparr>clock := clock w + n\<rparr>"

definition WiFi_status :: "'o world \<Rightarrow> bool \<times> 'o world" where
  "WiFi_status w = (adapter w (polls w), w\<lparr>polls := polls w + 1\<rparr>)"

definition WiFi_call :: "adapter_call \<Rightarrow> 'o world \<Rightarrow> 'o world" where
  "WiFi_call c w = w\<lparr>calls := calls w @ [(clock w, c)]\<rparr>"

datatype WiFiState = DISCONNECTED | CONNECTING | CONNECTED | ERROR

type_synonym 'o StateCallback = "WiFiState \<Rightarrow> 'o \<Rightarrow> 'o"

text \<open>
  The private fields. The two \<^verbatim>\<open>const char*\<close> may be null, and so may the
  \<^verbatim>\<open>std::function\<close>. \<^verbatim>\<open>_reconnectAttempts\<close> is a C++ \<^verbatim>\<open>int\<close>, 32 bits in two's
  complement on the ESP32: a \<open>32 word\<close> whose value is read by \<open>sint\<close>, and whose
  increment at 2147483647 wraps to -2147483648.
\<close>

type_synonym int_t = "32 word"

record 'o WiFiManager =
  ssid :: "string option"
  password :: "string option"
  state :: WiFiState
  stateCallback :: "'o StateCallback option"
  lastConnectAttempt :: millis_t
  reconnectAttempts :: int_t

definition WiFiManager_new :: "'o WiFiManager" where
  "WiFiManager_new =
     \<lparr>ssid = None, password = None, state = DISCONNECTED, stateCallback = None,
      lastConnectAttempt = 0, reconnectAttempts = 0\<rparr>"

definition updateState ::
  "WiFiState \<Rightarrow> 'o WiFiManager \<Rightarrow> 'o world \<Rightarrow> 'o WiFiManager \<times> 'o world" where
  "updateState newState m w =
     (if state m \<noteq> newState then
        (m\<lparr>state := newState\<rparr>,
         case stateCallback m of
           Some cb \<Rightarrow> w\<lparr>observer := cb newState (observer w)\<rparr>
         | None \<Rightarrow> w)
      else (m, w))"

text \<open>
  The \<^verbatim>\<open>while\<close> loop of \<^verbatim>\<open>begin\<close>, with the statements that follow the loop in the branch
  that leaves it. It always terminates: every round adds 500 ms to the elapsed time.
\<close>

function begin_loop ::
  "millis_t \<Rightarrow> 'o WiFiManager \<Rightarrow> 'o world \<Rightarrow> bool \<times> 'o WiFiManager \<times> 'o world" where
  "begin_loop startTime m w =
     (case WiFi_status w of
        (connected, w1) \<Rightarrow>
          if connected then
            (case updateState CONNECTED m w1 of
               (m2, w2) \<Rightarrow> (True, m2\<lparr>reconnectAttempts := 0\<rparr>, w2))
          else if millis w1 - startTime > WIFI_TIMEOUT_MS then
            (case updateState ERROR m w1 of (m2, w2) \<Rightarrow> (False, m2, w2))
          else begin_loop startTime m (delay 500 w1))"
  by pat_completeness auto

lemma unat_add_500:
  fixes x :: millis_t
  assumes "\<not> x > WIFI_TIMEOUT_MS"
  shows "unat (x + 500) = unat x + 500"
proof -
  have "unat x \<le> 30000"
    using assms by (simp add: WIFI_TIMEOUT_MS_def word_less_nat_alt)
  then show ?thesis
    by (simp add: unat_word_ariths)
qed

lemma millis_delay: "millis (delay n w) = millis w + of_nat n"
  by (simp add: millis_def delay_def)

lemma millis_WiFi_status: "millis (snd (WiFi_status w)) = millis w"
  by (simp add: millis_def WiFi_status_def)

lemma millis_polls: "millis (w\<lparr>polls := p\<rparr>) = millis w"
  by (simp add: millis_def)

lemma elapsed_after_delay:
  assumes "\<not> millis w - st > WIFI_TIMEOUT_MS"
  shows "unat (millis (delay 500 w) - st) = unat (millis w - st) + 500"
proof -
  have e: "millis (delay 500 w) - st = (millis w - st) + 500"
    by (simp add: millis_delay)
  show ?thesis
    unfolding e using assms by (rule unat_add_500)
qed

termination begin_loop
proof (relation "measure (\<lambda>(startTime, m, w). 30501 - unat (millis w - startTime))")
  show "wf (measure (\<lambda>(startTime, m, w). 30501 - unat (millis w - startTime)))"
    by simp
next
  fix startTime :: millis_t and m :: "'o WiFiManager" and w w1 :: "'o world" and connected
  assume st: "(connected, w1) = WiFi_status w"
    and running: "\<not> WIFI_TIMEOUT_MS < millis w1 - startTime"
  have w1: "millis w1 = millis w"
    using st millis_WiFi_status [of w] by (metis snd_conv)
  have small: "unat (millis w - startTime) \<le> 30000"
    using running w1 by (simp add: WIFI_TIMEOUT_MS_def word_less_nat_alt)
  have "unat (millis (delay 500 w1) - startTime) = unat (millis w - startTime) + 500"
    using elapsed_after_delay [OF running] w1 by simp
  then show "((startTime, m, delay 500 w1), (startTime, m, w))
      \<in> measure (\<lambda>(startTime, m, w). 30501 - unat (millis w - startTime))"
    using small by simp
qed

declare begin_loop.simps [simp del]

definition WiFiManager_begin ::
  "string option \<Rightarrow> string option \<Rightarrow> 'o WiFiManager \<Rightarrow> 'o world
     \<Rightarrow> bool \<times> 'o WiFiManager \<times> 'o world" where
  "WiFiManager_begin s p m w =
     (case updateState CONNECTING (m\<lparr>ssid := s, password := p\<rparr>) w of
        (m1, w1) \<Rightarrow>
          (let w2 = WiFi_call (WiFi_begin s p) (WiFi_call WiFi_mode_STA w1)
           in begin_loop (millis w2) m1 w2))"

definition handleDisconnect :: "'o WiFiManager \<Rightarrow> 'o world \<Rightarrow> 'o WiFiManager \<times> 'o world" where
  "handleDisconnect m w = updateState DISCONNECTED m w"

definition reconnect :: "'o WiFiManager \<Rightarrow> 'o world \<Rightarrow> 'o WiFiManager \<times> 'o world" where
  "reconnect m w =
     (case ssid m of
        None \<Rightarrow> (m, w)
      | Some s \<Rightarrow>
          (case WiFiManager_begin (ssid m) (password m)
                  (m\<lparr>reconnectAttempts := reconnectAttempts m + 1\<rparr>) w of
             (ok, m1, w1) \<Rightarrow> (m1, w1)))"

text \<open>
  \<^verbatim>\<open>WiFiManager::loop\<close>: two \<^verbatim>\<open>if\<close> statements in sequence. \<open>link_check\<close> is the first one;
  \<^verbatim>\<open>&&\<close> asks the adapter only when the state is CONNECTED.
\<close>

definition link_check :: "'o WiFiManager \<Rightarrow> 'o world \<Rightarrow> 'o WiFiManager \<times> 'o world" where
  "link_check m w =
     (if state m = CONNECTED then
        (case WiFi_status w of
           (connected, w1) \<Rightarrow> if \<not> connected then handleDisconnect m w1 else (m, w1))
      else (m, w))"

definition WiFiManager_loop :: "'o WiFiManager \<Rightarrow> 'o world \<Rightarrow> 'o WiFiManager \<times> 'o world" where
  "WiFiManager_loop m w =
     (case link_check m w of
        (m1, w1) \<Rightarrow>
          if state m1 = DISCONNECTED \<or> state m1 = ERROR then
            (let now = millis w1 in
               if now - lastConnectAttempt m1 > RECONNECT_DELAY_MS then
                 reconnect (m1\<lparr>lastConnectAttempt := now\<rparr>) w1
               else (m1, w1))
          else (m1, w1))"

definition isConnected :: "'o WiFiManager \<Rightarrow> 'o world \<Rightarrow> bool \<times> 'o world" where
  "isConnected m w =
     (if state m = CONNECTED then
        (case WiFi_status w of (connected, w1) \<Rightarrow> (connected, w1))
      else (False, w))"

definition getState :: "'o WiFiManager \<Rightarrow> WiFiState" where
  "getState m = state m"

definition setStateCallback ::
  "'o StateCallback option \<Rightarrow> 'o WiFiManager \<Rightarrow> 'o WiFiManager" where
  "setStateCallback callback m = m\<lparr>stateCallback := callback\<rparr>"

definition disconnect :: "'o WiFiManager \<Rightarrow> 'o world \<Rightarrow> 'o WiFiManager \<times> 'o world" where
  "disconnect m w = updateState DISCONNECTED m (WiFi_call WiFi_disconnect w)"

text \<open>
  A handler that records the states it is called with, in call order.
\<close>

definition logger :: "WiFiState list StateCallback" where
  "logger s seen = seen @ [s]"

text \<open>
  The calls made on the manager from outside, with the time that passes between them, and
  the run of a sequence of them.
\<close>

datatype wifi_op = Begin "string option" "string option" | Poll | Disconnect | Delay nat

fun wifi_exec :: "wifi_op \<Rightarrow> 'o WiFiManager \<times> 'o world \<Rightarrow> 'o WiFiManager \<times> 'o world" where
  "wifi_exec (Begin s p) (m, w) = snd (WiFiManager_begin s p m w)"
| "wifi_exec Poll (m, w) = WiFiManager_loop m w"
| "wifi_exec Disconnect (m, w) = disconnect m w"
| "wifi_exec (Delay n) (m, w) = (m, delay n w)"

fun wifi_run :: "wifi_op list \<Rightarrow> 'o WiFiManager \<times> 'o world \<Rightarrow> 'o WiFiManager \<times> 'o world" where
  "wifi_run [] mw = mw"
| "wifi_run (x # xs) mw = wifi_run xs (wifi_exec x mw)"

text \<open>
  \<open>changes s xs\<close>: starting from \<open>s\<close>, every entry of \<open>xs\<close> differs from the one before it.
\<close>

fun changes :: "WiFiState \<Rightarrow> WiFiState list \<Rightarrow> bool" where
  "changes s [] = True"
| "changes s (x # xs) = (x \<noteq> s \<and> changes x xs)"

text \<open>
  The two nested conditions of the second \<^verbatim>\<open>if\<close> of \<^verbatim>\<open>loop\<close>, and whether a poll goes on
  to a connect attempt: the conditions hold after the link check and \<^verbatim>\<open>reconnect\<close> finds
  an SSID.
\<close>

definition retry_due :: "'o WiFiManager \<Rightarrow> 'o world \<Rightarrow> bool" where
  "retry_due m w =
     ((state m = DISCONNECTED \<or> state m = ERROR) \<and>
      millis w - lastConnectAttempt m > RECONNECT_DELAY_MS)"

definition poll_attempts :: "'o WiFiManager \<Rightarrow> 'o world \<Rightarrow> bool" where
  "poll_attempts m w =
     (case link_check m w of (m1, w1) \<Rightarrow> retry_due m1 w1 \<and> ssid m1 \<noteq> None)"

text \<open>
  A connect attempt is a call of \<^verbatim>\<open>WiFi.begin\<close>. \<open>begin_times\<close> picks the clock values of
  these calls from a list of adapter commands, and \<open>attempt_times\<close> collects, over a run,
  the ones that the polls of the run added to \<open>calls\<close>.
\<close>

fun begin_times :: "(nat \<times> adapter_call) list \<Rightarrow> nat list" where
  "begin_times [] = []"
| "begin_times ((t, WiFi_begin s p) # cs) = t # begin_times cs"
| "begin_times (c # cs) = begin_times cs"

fun attempt_times :: "wifi_op list \<Rightarrow> 'o WiFiManager \<times> 'o world \<Rightarrow> nat list" where
  "attempt_times [] mw = []"
| "attempt_times (x # xs) mw =
     (if x = Poll then
        begin_times (drop (length (calls (snd mw))) (calls (snd (wifi_exec x mw))))
      else [])
       @ attempt_times xs (wifi_exec x mw)"

text \<open>A run in which \<^verbatim>\<open>begin\<close> is not called from outside: polls, disconnects and delays.\<close>

fun polling :: "wifi_op list \<Rightarrow> bool" where
  "polling [] = True"
| "polling (Begin s p # xs) = False"
| "polling (x # xs) = polling xs"

text \<open>\<open>spaced b ts\<close>: consecutive entries of \<open>ts\<close> are more than \<open>b\<close> apart.\<close>

fun spaced :: "nat \<Rightarrow> nat list \<Rightarrow> bool" where
  "spaced b [] = True"
| "spaced b [t] = True"
| "spaced b (t # u # ts) = (t + b < u \<and> spaced b (u # ts))"

text \<open>
  The number of status polls that \<^verbatim>\<open>begin\<close> still makes at most when \<open>e\<close> milliseconds have
  elapsed at a poll: one poll every 500 ms while the elapsed time is at most the timeout,
  and a last one at the first elapsed time beyond it.
\<close>

definition polls_left :: "nat \<Rightarrow> nat" where
  "polls_left e = (if 30000 < e then 1 else (30000 - e) div 500 + 2)"

section \<open>Properties of the LED indicator\<close>

lemma writes_append: "writes (h @ k) = writes h @ writes k"
  by (induction h rule: writes.induct) simp_all

lemma writes_applyState:
  "writes (snd (applyState v l h)) = writes h @ [(pin l, if activeLow l then \<not> v else v)]"
  by (simp add: applyState_def writes_append)

lemma fst_applyState: "fst (applyState v l h) = l\<lparr>ledState := v\<rparr>"
  by (simp add: applyState_def)

lemma fst_toggle: "fst (toggle l h) = l\<lparr>ledState := \<not> ledState l\<rparr>"
  by (simp add: toggle_def Let_def applyState_def)

lemma writes_toggle:
  "writes (snd (toggle l h)) =
     writes h @ [(pin l, if activeLow l then ledState l else \<not> ledState l)]"
  by (simp add: toggle_def Let_def applyState_def writes_append)

text \<open>
  Claim C7. \<^verbatim>\<open>setPattern(p)\<close>, from any controller state, makes \<open>p\<close> the active pattern and
  resets the toggle timestamp and the blink phase to 0. The logical output level, the pin
  and the polarity flag keep their values, and the call writes nothing to the output line.
\<close>

theorem setPattern_frame:
  "pattern (setPattern p l) = p \<and>
   lastUpdate (setPattern p l) = 0 \<and>
   blinkPhase (setPattern p l) = 0 \<and>
   ledState (setPattern p l) = ledState l \<and>
   pin (setPattern p l) = pin l \<and>
   activeLow (setPattern p l) = activeLow l \<and>
   led_exec (LedSetPattern p) (l, h) = (setPattern p l, h)"
  by (simp add: setPattern_def)

lemma led_exec_immutable:
  "pin (fst (led_exec x (l, h))) = pin l \<and> activeLow (fst (led_exec x (l, h))) = activeLow l"
  by (cases x)
    (simp_all add: LEDIndicator_begin_def LEDIndicator_loop_def LEDIndicator_on_def
      LEDIndicator_off_def toggle_def applyState_def setPattern_def Let_def
      split: LEDPattern.splits prod.splits)

lemma led_exec_writes:
  "\<exists>ws. writes (snd (led_exec x (l, h))) = writes h @ ws \<and>
     (ws = [] \<or>
      ws = [(pin l, if activeLow l then \<not> ledState (fst (led_exec x (l, h)))
                    else ledState (fst (led_exec x (l, h))))])"
  by (cases x)
    (simp_all add: LEDIndicator_begin_def LEDIndicator_loop_def LEDIndicator_on_def
      LEDIndicator_off_def toggle_def applyState_def setPattern_def Let_def writes_append
      split: LEDPattern.splits prod.splits)

text \<open>
  Claim C8. Every write of the output line is polarity corrected. \<^verbatim>\<open>applyState(v)\<close>, the only
  function that calls \<^verbatim>\<open>digitalWrite\<close>, drives the pin to \<open>\<not> v\<close> when \<open>activeLow\<close> is set and
  to \<open>v\<close> otherwise. Each public operation (initialize, poll, on, off, toggle, setPattern)
  keeps \<open>pin\<close> and \<open>activeLow\<close> and writes at most once, the corrected value of the logical
  level it leaves in \<open>ledState\<close>. In particular on() drives the line to \<open>\<not> activeLow\<close>
  (low when active low) and off() and initialize drive it to \<open>activeLow\<close> (high when
  active low).
\<close>

theorem polarity_correction:
  "writes (snd (applyState v l h)) = writes h @ [(pin l, if activeLow l then \<not> v else v)] \<and>
   ledState (fst (applyState v l h)) = v \<and>
   (\<exists>ws. writes (snd (led_exec x (l, h))) = writes h @ ws \<and>
     (ws = [] \<or>
      ws = [(pin l, if activeLow l then \<not> ledState (fst (led_exec x (l, h)))
                    else ledState (fst (led_exec x (l, h))))])) \<and>
   pin (fst (led_exec x (l, h))) = pin l \<and>
   activeLow (fst (led_exec x (l, h))) = activeLow l \<and>
   writes (snd (LEDIndicator_on l h)) = writes h @ [(pin l, \<not> activeLow l)] \<and>
   ledState (fst (LEDIndicator_on l h)) = True \<and>
   writes (snd (LEDIndicator_off l h)) = writes h @ [(pin l, activeLow l)] \<and>
   ledState (fst (LEDIndicator_off l h)) = False \<and>
   writes (snd (LEDIndicator_begin l h)) = writes h @ [(pin l, activeLow l)] \<and>
   ledState (fst (LEDIndicator_begin l h)) = False \<and>
   writes (snd (toggle l h)) =
     writes h @ [(pin l, if activeLow l then ledState l else \<not> ledState l)] \<and>
   ledState (fst (toggle l h)) = (\<not> ledState l)"
proof -
  have on_off:
    "writes (snd (LEDIndicator_on l h)) = writes h @ [(pin l, \<not> activeLow l)]"
    "writes (snd (LEDIndicator_off l h)) = writes h @ [(pin l, activeLow l)]"
    "writes (snd (LEDIndicator_begin l h)) = writes h @ [(pin l, activeLow l)]"
    by (simp_all add: LEDIndicator_on_def LEDIndicator_off_def LEDIndicator_begin_def
        applyState_def writes_append)
  have levels:
    "ledState (fst (LEDIndicator_on l h)) = True"
    "ledState (fst (LEDIndicator_off l h)) = False"
    "ledState (fst (LEDIndicator_begin l h)) = False"
    by (simp_all add: LEDIndicator_on_def LEDIndicator_off_def LEDIndicator_begin_def
        applyState_def)
  show ?thesis
    using led_exec_writes [of x l h] led_exec_immutable [of x l h]
    by (simp only: writes_applyState fst_applyState fst_toggle writes_toggle on_off levels)
      simp
qed

subsection \<open>Timing of the blink patterns\<close>













section \<open>Properties of the WiFi manager\<close>

subsection \<open>The building blocks\<close>

lemma fst_updateState: "fst (updateState n m w) = m\<lparr>state := n\<rparr>"
  by (simp add: updateState_def)

lemma updateState_world:
  "clock (snd (updateState n m w)) = clock w"
  "polls (snd (updateState n m w)) = polls w"
  "adapter (snd (updateState n m w)) = adapter w"
  "calls (snd (updateState n m w)) = calls w"
  by (simp_all add: updateState_def split: option.splits)

lemma WiFi_call_world:
  "clock (WiFi_call c w) = clock w"
  "polls (WiFi_call c w) = polls w"
  "adapter (WiFi_call c w) = adapter w"
  "observer (WiFi_call c w) = observer w"
  "calls (WiFi_call c w) = calls w @ [(clock w, c)]"
  "millis (WiFi_call c w) = millis w"
  by (simp_all add: WiFi_call_def millis_def)

lemma updateState_logger:
  "stateCallback m = Some logger \<Longrightarrow>
   updateState n m w =
     (m\<lparr>state := n\<rparr>, w\<lparr>observer := observer w @ (if state m = n then [] else [n])\<rparr>)"
  by (simp add: updateState_def logger_def)

lemma polls_left_step: "e \<le> 30000 \<Longrightarrow> polls_left e = Suc (polls_left (e + 500))"
  by (simp add: polls_left_def) arith

lemma begin_loop_ok:
  "fst (begin_loop st m w) =
     (\<exists>k < polls_left (unat (millis w - st)). adapter w (polls w + k))"
proof (induction st m w rule: begin_loop.induct)
  case (1 st m w)
  let ?e = "unat (millis w - st)"
  let ?w1 = "w\<lparr>polls := polls w + 1\<rparr>"
  have m1: "millis ?w1 = millis w" by (simp add: millis_def)
  show ?case
  proof (cases "adapter w (polls w)")
    case True
    have "0 < polls_left ?e" by (simp add: polls_left_def)
    then have "\<exists>k < polls_left ?e. adapter w (polls w + k)"
      using True by (intro exI [of _ 0]) simp
    moreover have "fst (begin_loop st m w)"
      using True by (subst begin_loop.simps) (simp add: WiFi_status_def split: prod.splits)
    ultimately show ?thesis by simp
  next
    case False
    show ?thesis
    proof (cases "millis w - st > WIFI_TIMEOUT_MS")
      case True
      then have "30000 < ?e" by (simp add: WIFI_TIMEOUT_MS_def word_less_nat_alt)
      then have "polls_left ?e = 1" by (simp add: polls_left_def)
      moreover have "\<not> fst (begin_loop st m w)"
        using True False by (subst begin_loop.simps) (simp add: WiFi_status_def millis_polls)
      ultimately show ?thesis using False by simp
    next
      case running: False
      then have small: "?e \<le> 30000" by (simp add: WIFI_TIMEOUT_MS_def word_less_nat_alt)
      have e2: "unat (millis (delay 500 ?w1) - st) = ?e + 500"
        using elapsed_after_delay [of ?w1 st] running by (simp add: millis_polls)
      have unfold: "begin_loop st m w = begin_loop st m (delay 500 ?w1)"
        using False running by (subst begin_loop.simps) (simp add: WiFi_status_def millis_polls)
      have "fst (begin_loop st m (delay 500 ?w1)) =
          (\<exists>k < polls_left (?e + 500). adapter w (Suc (polls w) + k))"
        using "1.IH" [of "adapter w (polls w)" ?w1] False running e2
        by (simp add: WiFi_status_def delay_def millis_polls)
      also have "\<dots> = (\<exists>k < polls_left ?e. adapter w (polls w + k))"
      proof
        assume "\<exists>k < polls_left (?e + 500). adapter w (Suc (polls w) + k)"
        then obtain k where "k < polls_left (?e + 500)" "adapter w (Suc (polls w) + k)" by blast
        then show "\<exists>k < polls_left ?e. adapter w (polls w + k)"
          using polls_left_step [OF small] by (intro exI [of _ "Suc k"]) simp
      next
        assume "\<exists>k < polls_left ?e. adapter w (polls w + k)"
        then obtain k where k: "k < polls_left ?e" "adapter w (polls w + k)" by blast
        with False obtain j where "k = Suc j" by (cases k) auto
        with k show "\<exists>k < polls_left (?e + 500). adapter w (Suc (polls w) + k)"
          using polls_left_step [OF small] by (intro exI [of _ j]) simp
      qed
      finally show ?thesis using unfold by simp
    qed
  qed
qed

lemma begin_loop_exit:
  "\<exists>n < polls_left (unat (millis w - st)).
     begin_loop st m w =
       (case updateState (if adapter w (polls w + n) then CONNECTED else ERROR) m
               (w\<lparr>clock := clock w + 500 * n, polls := polls w + Suc n\<rparr>) of
          (m2, w2) \<Rightarrow>
            (adapter w (polls w + n),
             if adapter w (polls w + n) then m2\<lparr>reconnectAttempts := 0\<rparr> else m2, w2))"
proof (induction st m w rule: begin_loop.induct)
  case (1 st m w)
  let ?e = "unat (millis w - st)"
  let ?w1 = "w\<lparr>polls := polls w + 1\<rparr>"
  have pos: "0 < polls_left ?e" by (simp add: polls_left_def)
  show ?case
  proof (cases "adapter w (polls w) \<or> millis w - st > WIFI_TIMEOUT_MS")
    case True
    then have "begin_loop st m w =
       (case updateState (if adapter w (polls w + 0) then CONNECTED else ERROR) m
               (w\<lparr>clock := clock w + 500 * 0, polls := polls w + Suc 0\<rparr>) of
          (m2, w2) \<Rightarrow>
            (adapter w (polls w + 0),
             if adapter w (polls w + 0) then m2\<lparr>reconnectAttempts := 0\<rparr> else m2, w2))"
      by (subst begin_loop.simps) (auto simp add: WiFi_status_def millis_polls split: prod.splits)
    with pos show ?thesis by blast
  next
    case False
    then have lost: "\<not> adapter w (polls w)" and running: "\<not> millis w - st > WIFI_TIMEOUT_MS"
      by simp_all
    from running have small: "?e \<le> 30000"
      by (simp add: WIFI_TIMEOUT_MS_def word_less_nat_alt)
    have e2: "unat (millis (delay 500 ?w1) - st) = ?e + 500"
      using elapsed_after_delay [of ?w1 st] running by (simp add: millis_polls)
    have unfold: "begin_loop st m w = begin_loop st m (delay 500 ?w1)"
      using lost running by (subst begin_loop.simps) (simp add: WiFi_status_def millis_polls)
    obtain n where n: "n < polls_left (?e + 500)"
      and eq: "begin_loop st m (delay 500 ?w1) =
       (case updateState (if adapter w (Suc (polls w) + n) then CONNECTED else ERROR) m
               (w\<lparr>clock := clock w + 500 + 500 * n, polls := Suc (polls w) + Suc n\<rparr>) of
          (m2, w2) \<Rightarrow>
            (adapter w (Suc (polls w) + n),
             if adapter w (Suc (polls w) + n) then m2\<lparr>reconnectAttempts := 0\<rparr> else m2, w2))"
      using "1.IH" [of "adapter w (polls w)" ?w1] lost running e2
      by (auto simp add: WiFi_status_def delay_def millis_polls)
    have "Suc n < polls_left ?e"
      using n polls_left_step [OF small] by simp
    moreover have "begin_loop st m w =
       (case updateState (if adapter w (polls w + Suc n) then CONNECTED else ERROR) m
               (w\<lparr>clock := clock w + 500 * Suc n, polls := polls w + Suc (Suc n)\<rparr>) of
          (m2, w2) \<Rightarrow>
            (adapter w (polls w + Suc n),
             if adapter w (polls w + Suc n) then m2\<lparr>reconnectAttempts := 0\<rparr> else m2, w2))"
      using eq unfold by (simp add: add.commute add.left_commute)
    ultimately show ?thesis by blast
  qed
qed

lemma polls_left_0: "polls_left 0 = 62"
  by (simp add: polls_left_def)

lemma begin_unfold:
  "WiFiManager_begin s p m w =
     begin_loop (millis w) (m\<lparr>ssid := s, password := p, state := CONNECTING\<rparr>)
       (WiFi_call (WiFi_begin s p) (WiFi_call WiFi_mode_STA
          (snd (updateState CONNECTING (m\<lparr>ssid := s, password := p\<rparr>) w))))"
  by (simp add: WiFiManager_begin_def case_prod_beta Let_def fst_updateState millis_def
      updateState_world WiFi_call_world)

lemma begin_ok:
  "fst (WiFiManager_begin s p m w) = (\<exists>k<62. adapter w (polls w + k))"
  by (simp add: begin_unfold begin_loop_ok millis_def updateState_world WiFi_call_world
      polls_left_0)

lemma begin_exit:
  "\<exists>n<62. WiFiManager_begin s p m w =
     (adapter w (polls w + n),
      m\<lparr>ssid := s, password := p,
        state := if adapter w (polls w + n) then CONNECTED else ERROR,
        reconnectAttempts := if adapter w (polls w + n) then 0 else reconnectAttempts m\<rparr>,
      snd (updateState (if adapter w (polls w + n) then CONNECTED else ERROR)
             (m\<lparr>ssid := s, password := p, state := CONNECTING\<rparr>)
             ((WiFi_call (WiFi_begin s p) (WiFi_call WiFi_mode_STA
                 (snd (updateState CONNECTING (m\<lparr>ssid := s, password := p\<rparr>) w))))
                \<lparr>clock := clock w + 500 * n, polls := polls w + Suc n\<rparr>)))"
proof -
  let ?m0 = "m\<lparr>ssid := s, password := p\<rparr>"
  let ?w0 = "WiFi_call (WiFi_begin s p) (WiFi_call WiFi_mode_STA
      (snd (updateState CONNECTING ?m0 w)))"
  have w0: "clock ?w0 = clock w" "polls ?w0 = polls w" "adapter ?w0 = adapter w"
    by (simp_all add: updateState_world WiFi_call_world)
  have e0: "unat (millis ?w0 - millis w) = 0"
    by (simp add: millis_def w0)
  obtain n where n: "n < polls_left (unat (millis ?w0 - millis w))"
    and eq: "begin_loop (millis w) (?m0\<lparr>state := CONNECTING\<rparr>) ?w0 =
       (case updateState (if adapter ?w0 (polls ?w0 + n) then CONNECTED else ERROR)
               (?m0\<lparr>state := CONNECTING\<rparr>)
               (?w0\<lparr>clock := clock ?w0 + 500 * n, polls := polls ?w0 + Suc n\<rparr>) of
          (m2, w2) \<Rightarrow>
            (adapter ?w0 (polls ?w0 + n),
             if adapter ?w0 (polls ?w0 + n) then m2\<lparr>reconnectAttempts := 0\<rparr> else m2, w2))"
    using begin_loop_exit [of ?w0 "millis w" "?m0\<lparr>state := CONNECTING\<rparr>"] by blast
  have "n < 62" using n by (simp only: e0 polls_left_0)
  moreover have "WiFiManager_begin s p m w =
     (adapter w (polls w + n),
      m\<lparr>ssid := s, password := p,
        state := if adapter w (polls w + n) then CONNECTED else ERROR,
        reconnectAttempts := if adapter w (polls w + n) then 0 else reconnectAttempts m\<rparr>,
      snd (updateState (if adapter w (polls w + n) then CONNECTED else ERROR)
             (?m0\<lparr>state := CONNECTING\<rparr>)
             (?w0\<lparr>clock := clock w + 500 * n, polls := polls w + Suc n\<rparr>)))"
    using eq unfolding w0 by (simp add: begin_unfold case_prod_beta fst_updateState)
  ultimately show ?thesis by blast
qed

lemma begin_manager:
  "fst (snd (WiFiManager_begin s p m w)) =
     m\<lparr>ssid := s, password := p,
       state := if fst (WiFiManager_begin s p m w) then CONNECTED else ERROR,
       reconnectAttempts := if fst (WiFiManager_begin s p m w) then 0 else reconnectAttempts m\<rparr>"
  using begin_exit [of s p m w] by auto

lemma begin_world:
  "adapter (snd (snd (WiFiManager_begin s p m w))) = adapter w \<and>
   polls w < polls (snd (snd (WiFiManager_begin s p m w))) \<and>
   polls (snd (snd (WiFiManager_begin s p m w))) \<le> polls w + 62 \<and>
   clock (snd (snd (WiFiManager_begin s p m w))) =
     clock w + 500 * (polls (snd (snd (WiFiManager_begin s p m w))) - Suc (polls w))"
  using begin_exit [of s p m w] by (auto simp add: updateState_world WiFi_call_world)

lemma begin_calls:
  "calls (snd (snd (WiFiManager_begin s p m w))) =
     calls w @ [(clock w, WiFi_mode_STA), (clock w, WiFi_begin s p)]"
  using begin_exit [of s p m w] by (auto simp add: updateState_world WiFi_call_world)

lemma begin_observer:
  assumes "stateCallback m = Some logger"
  shows "observer (snd (snd (WiFiManager_begin s p m w))) =
     observer w @ (if state m = CONNECTING then [] else [CONNECTING])
       @ [if fst (WiFiManager_begin s p m w) then CONNECTED else ERROR]"
  using begin_exit [of s p m w] assms
  by (auto simp add: updateState_logger WiFi_call_world)

lemma link_check_eq:
  "link_check m w =
     (if state m = CONNECTED then
        (if adapter w (polls w) then (m, w\<lparr>polls := polls w + 1\<rparr>)
         else updateState DISCONNECTED m (w\<lparr>polls := polls w + 1\<rparr>))
      else (m, w))"
  by (simp add: link_check_def WiFi_status_def handleDisconnect_def)

lemma link_check_manager:
  "fst (link_check m w) =
     (if state m = CONNECTED \<and> \<not> adapter w (polls w) then m\<lparr>state := DISCONNECTED\<rparr> else m)"
  by (simp add: link_check_eq fst_updateState)

lemma link_check_world:
  "clock (snd (link_check m w)) = clock w"
  "adapter (snd (link_check m w)) = adapter w"
  "calls (snd (link_check m w)) = calls w"
  "millis (snd (link_check m w)) = millis w"
  "polls (snd (link_check m w)) = (if state m = CONNECTED then polls w + 1 else polls w)"
  by (simp_all add: link_check_eq updateState_world millis_def)

lemma begin_clock: "clock w \<le> clock (snd (snd (WiFiManager_begin s p m w)))"
  using begin_world [of s p m w] by simp

lemma reconnect_eq:
  "reconnect m w =
     (if ssid m = None then (m, w)
      else snd (WiFiManager_begin (ssid m) (password m)
                 (m\<lparr>reconnectAttempts := reconnectAttempts m + 1\<rparr>) w))"
  by (simp add: reconnect_def split: option.splits prod.splits)

lemma loop_eq:
  "WiFiManager_loop m w =
     (if retry_due (fst (link_check m w)) (snd (link_check m w)) then
        reconnect ((fst (link_check m w))\<lparr>lastConnectAttempt := millis w\<rparr>) (snd (link_check m w))
      else link_check m w)"
  by (simp add: WiFiManager_loop_def retry_due_def Let_def case_prod_beta link_check_world)

lemma reconnect_manager:
  "lastConnectAttempt (fst (reconnect m w)) = lastConnectAttempt m \<and>
   stateCallback (fst (reconnect m w)) = stateCallback m \<and>
   ssid (fst (reconnect m w)) = ssid m \<and>
   password (fst (reconnect m w)) = password m"
  by (simp add: reconnect_eq begin_manager)

lemma reconnect_clock: "clock w \<le> clock (snd (reconnect m w))"
  by (simp add: reconnect_eq begin_clock)

lemma loop_last:
  "lastConnectAttempt (fst (WiFiManager_loop m w)) =
     (if retry_due (fst (link_check m w)) (snd (link_check m w)) then millis w
      else lastConnectAttempt m)"
  by (simp add: loop_eq reconnect_manager link_check_manager)

lemma loop_clock: "clock w \<le> clock (snd (WiFiManager_loop m w))"
  using reconnect_clock [of "snd (link_check m w)"
      "(fst (link_check m w))\<lparr>lastConnectAttempt := millis w\<rparr>"]
  by (simp add: loop_eq link_check_world)

lemma exec_last:
  "lastConnectAttempt (fst (wifi_exec x (m, w))) =
     (if x = Poll \<and> retry_due (fst (link_check m w)) (snd (link_check m w)) then millis w
      else lastConnectAttempt m)"
  by (cases x) (simp_all add: loop_last begin_manager disconnect_def fst_updateState)

lemma exec_clock: "clock w \<le> clock (snd (wifi_exec x (m, w)))"
  by (cases x)
    (simp_all add: begin_clock loop_clock disconnect_def updateState_world WiFi_call_world
      delay_def)

lemma word_elapsed:
  fixes t c :: nat
  assumes "t \<le> c" and "(of_nat c - of_nat t :: millis_t) > RECONNECT_DELAY_MS"
  shows "t + 5000 < c"
proof -
  have "(of_nat c - of_nat t :: millis_t) = of_nat (c - t)"
    using assms(1) by simp
  then have "5000 < unat (of_nat (c - t) :: millis_t)"
    using assms(2) by (simp add: RECONNECT_DELAY_MS_def word_less_nat_alt)
  also have "unat (of_nat (c - t) :: millis_t) \<le> c - t"
    by (simp add: unat_of_nat)
  finally show ?thesis by simp
qed

lemma spaced_weaken: "t \<le> u \<Longrightarrow> spaced b (u # ts) \<Longrightarrow> spaced b (t # ts)"
  by (cases ts) simp_all

lemma poll_attempts_due:
  "poll_attempts m w \<Longrightarrow> retry_due (fst (link_check m w)) (snd (link_check m w))"
  by (simp add: poll_attempts_def case_prod_beta)

lemma poll_attempts_eq:
  "poll_attempts m w =
     (retry_due (fst (link_check m w)) (snd (link_check m w)) \<and> ssid m \<noteq> None)"
  by (simp add: poll_attempts_def case_prod_beta link_check_manager)

lemma loop_attempt:
  assumes "poll_attempts m w"
  shows "WiFiManager_loop m w =
     snd (WiFiManager_begin (ssid m) (password m)
       ((fst (link_check m w))
          \<lparr>lastConnectAttempt := millis w, reconnectAttempts := reconnectAttempts m + 1\<rparr>)
       (snd (link_check m w)))"
  using assms unfolding poll_attempts_eq loop_eq reconnect_eq
  by (auto simp add: link_check_manager)

lemma loop_no_attempt:
  assumes "\<not> poll_attempts m w"
  shows "WiFiManager_loop m w =
     ((fst (link_check m w))
        \<lparr>lastConnectAttempt :=
           if retry_due (fst (link_check m w)) (snd (link_check m w)) then millis w
           else lastConnectAttempt m\<rparr>,
      snd (link_check m w))"
  using assms
  by (auto simp add: poll_attempts_eq loop_eq reconnect_eq link_check_manager prod_eq_iff)

lemma loop_calls:
  "calls (snd (WiFiManager_loop m w)) =
     calls w @
       (if poll_attempts m w then
          [(clock w, WiFi_mode_STA), (clock w, WiFi_begin (ssid m) (password m))]
        else [])"
proof (cases "poll_attempts m w")
  case True
  then show ?thesis
    by (simp add: loop_attempt begin_calls link_check_world)
next
  case False
  then show ?thesis
    by (simp add: loop_no_attempt link_check_world)
qed

lemma begin_times_append: "begin_times (cs @ ds) = begin_times cs @ begin_times ds"
  by (induction cs rule: begin_times.induct) simp_all

lemma poll_begin_times:
  "begin_times (drop (length (calls w)) (calls (snd (WiFiManager_loop m w)))) =
     (if poll_attempts m w then [clock w] else [])"
  by (simp add: loop_calls)

lemma attempt_times_Cons:
  "attempt_times (x # xs) (m, w) =
     (if x = Poll \<and> poll_attempts m w then [clock w] else [])
       @ attempt_times xs (wifi_exec x (m, w))"
  by (simp add: loop_calls)

lemma spaced_after:
  "lastConnectAttempt m = of_nat t \<Longrightarrow> t \<le> clock w \<Longrightarrow>
   spaced 5000 (t # attempt_times ops (m, w))"
proof (induction ops arbitrary: m w t)
  case Nil
  show ?case by simp
next
  case (Cons x xs)
  obtain m' w' where next_state: "wifi_exec x (m, w) = (m', w')"
    by (cases "wifi_exec x (m, w)")
  have clock': "clock w \<le> clock w'"
    using exec_clock [of w x m] next_state by simp
  show ?case
  proof (cases "x = Poll \<and> retry_due (fst (link_check m w)) (snd (link_check m w))")
    case True
    then have due: "retry_due (fst (link_check m w)) (snd (link_check m w))" by simp
    have "lastConnectAttempt m' = of_nat (clock w)"
      using exec_last [of x m w] next_state True by (simp add: millis_def)
    then have rest: "spaced 5000 (clock w # attempt_times xs (m', w'))"
      using clock' by (rule Cons.IH)
    have "millis w - lastConnectAttempt m > RECONNECT_DELAY_MS"
      using due by (simp add: retry_due_def link_check_world link_check_manager split: if_splits)
    then have far: "t + 5000 < clock w"
      using Cons.prems word_elapsed [of t "clock w"] by (simp add: millis_def)
    then have "spaced 5000 (t # attempt_times xs (m', w'))"
      using rest by (intro spaced_weaken [of t "clock w"]) simp_all
    then show ?thesis
      unfolding attempt_times_Cons using far rest next_state by simp
  next
    case False
    then have none: "\<not> (x = Poll \<and> poll_attempts m w)"
      using poll_attempts_due by blast
    have "lastConnectAttempt m' = of_nat t"
      using exec_last [of x m w] next_state False Cons.prems by simp
    moreover have "t \<le> clock w'"
      using clock' Cons.prems by simp
    ultimately have "spaced 5000 (t # attempt_times xs (m', w'))"
      by (rule Cons.IH)
    then show ?thesis
      unfolding attempt_times_Cons using none next_state by auto
  qed
qed

lemma attempts_spaced: "spaced 5000 (attempt_times ops (m, w))"
proof (induction ops arbitrary: m w)
  case Nil
  show ?case by simp
next
  case (Cons x xs)
  obtain m' w' where next_state: "wifi_exec x (m, w) = (m', w')"
    by (cases "wifi_exec x (m, w)")
  show ?case
  proof (cases "x = Poll \<and> poll_attempts m w")
    case True
    have "lastConnectAttempt m' = of_nat (clock w)"
      using exec_last [of x m w] next_state True poll_attempts_due [of m w]
      by (simp add: millis_def)
    moreover have "clock w \<le> clock w'"
      using exec_clock [of w x m] next_state by simp
    ultimately have "spaced 5000 (clock w # attempt_times xs (m', w'))"
      by (rule spaced_after)
    then show ?thesis
      unfolding attempt_times_Cons using True next_state by simp
  next
    case False
    then show ?thesis
      unfolding attempt_times_Cons using Cons.IH [of m' w'] next_state by auto
  qed
qed

lemma run_calls:
  "polling ops \<Longrightarrow>
   \<exists>new. calls (snd (wifi_run ops (m, w))) = calls w @ new \<and>
     begin_times new = attempt_times ops (m, w)"
proof (induction ops arbitrary: m w)
  case Nil
  then show ?case by simp
next
  case (Cons x xs)
  obtain m' w' where step: "wifi_exec x (m, w) = (m', w')"
    by (cases "wifi_exec x (m, w)")
  have "\<exists>new1. calls w' = calls w @ new1 \<and>
      begin_times new1 = (if x = Poll \<and> poll_attempts m w then [clock w] else [])"
  proof (cases x)
    case (Begin s p)
    then show ?thesis using Cons.prems by simp
  next
    case Poll
    then show ?thesis using step loop_calls [of m w] by auto
  next
    case Disconnect
    have "w' = snd (wifi_exec x (m, w))"
      using step by simp
    then have "calls w' = calls w @ [(clock w, WiFi_disconnect)]"
      using Disconnect by (simp add: disconnect_def updateState_world WiFi_call_world)
    then show ?thesis
      using Disconnect by (intro exI [of _ "[(clock w, WiFi_disconnect)]"]) simp
  next
    case (Delay n)
    then show ?thesis using step by (auto simp add: delay_def)
  qed
  then obtain new1 where c1: "calls w' = calls w @ new1"
    and b1: "begin_times new1 = (if x = Poll \<and> poll_attempts m w then [clock w] else [])"
    by blast
  have "polling xs"
    using Cons.prems by (cases x) simp_all
  then obtain new2 where c2: "calls (snd (wifi_run xs (m', w'))) = calls w' @ new2"
    and b2: "begin_times new2 = attempt_times xs (m', w')"
    using Cons.IH [of m' w'] by blast
  have "calls (snd (wifi_run (x # xs) (m, w))) = calls w @ (new1 @ new2)"
    using c1 c2 step by simp
  moreover have "begin_times (new1 @ new2) = attempt_times (x # xs) (m, w)"
    unfolding attempt_times_Cons begin_times_append using b1 b2 step by simp
  ultimately show ?case by blast
qed




lemma changes_append:
  "changes s xs \<Longrightarrow> changes (last (s # xs)) ys \<Longrightarrow> changes s (xs @ ys)"
  by (induction xs arbitrary: s) simp_all

lemma last_append_from: "last (s # xs @ ys) = last (last (s # xs) # ys)"
  by (induction xs arbitrary: s) simp_all

lemma link_check_observer:
  "stateCallback m = Some logger \<Longrightarrow>
   observer (snd (link_check m w)) =
     observer w @ (if state m = CONNECTED \<and> \<not> adapter w (polls w) then [DISCONNECTED] else [])"
  by (simp add: link_check_eq updateState_logger)

lemma link_check_callback: "stateCallback (fst (link_check m w)) = stateCallback m"
  by (simp add: link_check_manager)

lemma loop_callback: "stateCallback (fst (WiFiManager_loop m w)) = stateCallback m"
  by (simp add: loop_eq reconnect_manager link_check_manager)

lemma begin_tracks:
  assumes "stateCallback m = Some logger"
  shows "\<exists>new. observer (snd (snd (WiFiManager_begin s p m w))) = observer w @ new \<and>
     changes (state m) new \<and>
     state (fst (snd (WiFiManager_begin s p m w))) = last (state m # new)"
proof -
  let ?final = "if fst (WiFiManager_begin s p m w) then CONNECTED else ERROR"
  let ?new = "(if state m = CONNECTING then [] else [CONNECTING]) @ [?final]"
  have "observer (snd (snd (WiFiManager_begin s p m w))) = observer w @ ?new"
    using assms by (simp add: begin_observer)
  moreover have "changes (state m) ?new"
    by simp
  moreover have "state (fst (snd (WiFiManager_begin s p m w))) = last (state m # ?new)"
    by (simp add: begin_manager)
  ultimately show ?thesis by blast
qed

lemma loop_tracks:
  assumes "stateCallback m = Some logger"
  shows "\<exists>new. observer (snd (WiFiManager_loop m w)) = observer w @ new \<and>
     changes (state m) new \<and>
     state (fst (WiFiManager_loop m w)) = last (state m # new)"
proof -
  let ?m1 = "fst (link_check m w)" and ?w1 = "snd (link_check m w)"
  let ?new1 = "if state m = CONNECTED \<and> \<not> adapter w (polls w) then [DISCONNECTED] else []"
  have o1: "observer ?w1 = observer w @ ?new1"
    using assms by (rule link_check_observer)
  have c1: "changes (state m) ?new1" by simp
  have s1: "state ?m1 = last (state m # ?new1)"
    by (simp add: link_check_manager)
  show ?thesis
  proof (cases "poll_attempts m w")
    case True
    let ?m2 = "?m1\<lparr>lastConnectAttempt := millis w, reconnectAttempts := reconnectAttempts m + 1\<rparr>"
    have loop: "WiFiManager_loop m w = snd (WiFiManager_begin (ssid m) (password m) ?m2 ?w1)"
      using True by (rule loop_attempt)
    have "stateCallback ?m2 = Some logger"
      using assms by (simp add: link_check_manager)
    then obtain new2 where
      o2: "observer (snd (snd (WiFiManager_begin (ssid m) (password m) ?m2 ?w1))) =
          observer ?w1 @ new2"
      and c2: "changes (state ?m2) new2"
      and s2: "state (fst (snd (WiFiManager_begin (ssid m) (password m) ?m2 ?w1))) =
          last (state ?m2 # new2)"
      using begin_tracks [of ?m2 "ssid m" "password m" ?w1] by blast
    have "observer (snd (WiFiManager_loop m w)) = observer w @ (?new1 @ new2)"
      unfolding loop o2 o1 by simp
    moreover have "changes (state m) (?new1 @ new2)"
      using c1 c2 s1 by (intro changes_append) simp_all
    moreover have "state (fst (WiFiManager_loop m w)) = last (state m # ?new1 @ new2)"
      unfolding loop s2 using s1 by (simp only: last_append_from [of "state m" ?new1 new2]) simp
    ultimately show ?thesis by blast
  next
    case False
    have "observer (snd (WiFiManager_loop m w)) = observer w @ ?new1"
      using o1 by (simp add: loop_no_attempt [OF False])
    moreover have "state (fst (WiFiManager_loop m w)) = last (state m # ?new1)"
      using s1 by (simp add: loop_no_attempt [OF False])
    ultimately show ?thesis using c1 by blast
  qed
qed

lemma exec_tracks:
  assumes "stateCallback m = Some logger"
  shows "\<exists>new. observer (snd (wifi_exec x (m, w))) = observer w @ new \<and>
     changes (state m) new \<and>
     state (fst (wifi_exec x (m, w))) = last (state m # new)"
proof (cases x)
  case (Begin s p)
  then show ?thesis using begin_tracks [OF assms, of s p w] by simp
next
  case Poll
  then show ?thesis using loop_tracks [OF assms, of w] by simp
next
  case Disconnect
  let ?new = "if state m = DISCONNECTED then [] else [DISCONNECTED]"
  have "observer (snd (disconnect m w)) = observer w @ ?new"
    and "changes (state m) ?new"
    and "state (fst (disconnect m w)) = last (state m # ?new)"
    using assms by (simp_all add: disconnect_def updateState_logger WiFi_call_world)
  then show ?thesis using Disconnect by (intro exI [of _ ?new]) simp
next
  case (Delay n)
  then show ?thesis by (intro exI [of _ "[]"]) (simp add: delay_def)
qed

lemma exec_callback: "stateCallback (fst (wifi_exec x (m, w))) = stateCallback m"
  by (cases x) (simp_all add: begin_manager loop_callback disconnect_def fst_updateState)

lemma run_tracks:
  "stateCallback m = Some logger \<Longrightarrow>
   \<exists>new. observer (snd (wifi_run ops (m, w))) = observer w @ new \<and>
     changes (state m) new \<and>
     state (fst (wifi_run ops (m, w))) = last (state m # new)"
proof (induction ops arbitrary: m w)
  case Nil
  then show ?case by simp
next
  case (Cons x xs)
  obtain m' w' where step: "wifi_exec x (m, w) = (m', w')"
    by (cases "wifi_exec x (m, w)")
  obtain new1 where o1: "observer w' = observer w @ new1"
    and c1: "changes (state m) new1" and s1: "state m' = last (state m # new1)"
    using exec_tracks [OF Cons.prems, of x w] step by auto
  have "stateCallback m' = Some logger"
    using exec_callback [of x m w] step Cons.prems by simp
  then obtain new2 where o2: "observer (snd (wifi_run xs (m', w'))) = observer w' @ new2"
    and c2: "changes (state m') new2"
    and s2: "state (fst (wifi_run xs (m', w'))) = last (state m' # new2)"
    using Cons.IH [of m' w'] by blast
  have "observer (snd (wifi_run (x # xs) (m, w))) = observer w @ (new1 @ new2)"
    using o1 o2 step by simp
  moreover have "changes (state m) (new1 @ new2)"
    using c1 c2 s1 by (intro changes_append) simp_all
  moreover have "state (fst (wifi_run (x # xs) (m, w))) = last (state m # new1 @ new2)"
    using s2 s1 step by (simp only: last_append_from [of "state m" new1 new2]) simp
  ultimately show ?case by blast
qed

lemma exec_not_connecting:
  assumes "state m \<noteq> CONNECTING"
  shows "state (fst (wifi_exec x (m, w))) \<noteq> CONNECTING"
proof (cases x)
  case (Begin s p)
  then show ?thesis by (simp add: begin_manager)
next
  case Poll
  show ?thesis
  proof (cases "poll_attempts m w")
    case True
    then show ?thesis using Poll by (simp add: loop_attempt begin_manager)
  next
    case False
    then show ?thesis using Poll assms by (simp add: loop_no_attempt link_check_manager)
  qed
next
  case Disconnect
  then show ?thesis by (simp add: disconnect_def fst_updateState)
next
  case (Delay n)
  then show ?thesis using assms by simp
qed

lemma run_not_connecting:
  "state m \<noteq> CONNECTING \<Longrightarrow> state (fst (wifi_run ops (m, w))) \<noteq> CONNECTING"
proof (induction ops arbitrary: m w)
  case Nil
  then show ?case by simp
next
  case (Cons x xs)
  obtain m' w' where step: "wifi_exec x (m, w) = (m', w')"
    by (cases "wifi_exec x (m, w)")
  then have "state m' \<noteq> CONNECTING"
    using exec_not_connecting [OF Cons.prems, of x w] by simp
  then show ?case
    using Cons.IH [of m' w'] step by simp
qed

lemma fresh_run_not_connecting:
  "state (fst (wifi_run ops (setStateCallback cb WiFiManager_new, w))) \<noteq> CONNECTING"
  by (rule run_not_connecting) (simp add: setStateCallback_def WiFiManager_new_def)

subsection \<open>State changes and handler calls\<close>

text \<open>
  Claim C1. The field \<open>state\<close> is written by \<open>updateState\<close> alone; \<open>updateState\<close> on the state
  already held changes nothing and calls no handler, and on another state it stores that
  state and calls the registered handler once. Hence, for every run of begin, poll and
  disconnect calls (with any delays between them) and every sequence of adapter reports,
  the calls made to a registered handler are exactly the changes of state: each call
  carries a state different from the one held before it, and the state held after the run
  is the one of the last call (the starting state when there was no call).
\<close>

theorem handler_once_per_change:
  "updateState (state m) m w = (m, w) \<and>
   updateState n (setStateCallback (Some logger) m) w =
     ((setStateCallback (Some logger) m)\<lparr>state := n\<rparr>,
      w\<lparr>observer := observer w @ (if state m = n then [] else [n])\<rparr>) \<and>
   (\<exists>new.
      observer (snd (wifi_run ops (setStateCallback (Some logger) m, w))) = observer w @ new \<and>
      changes (state m) new \<and>
      state (fst (wifi_run ops (setStateCallback (Some logger) m, w))) = last (state m # new))"
proof -
  have "updateState (state m) m w = (m, w)"
    by (simp add: updateState_def)
  moreover have "updateState n (setStateCallback (Some logger) m) w =
     ((setStateCallback (Some logger) m)\<lparr>state := n\<rparr>,
      w\<lparr>observer := observer w @ (if state m = n then [] else [n])\<rparr>)"
    using updateState_logger [of "setStateCallback (Some logger) m" n w]
    by (simp add: setStateCallback_def)
  moreover have "\<exists>new.
      observer (snd (wifi_run ops (setStateCallback (Some logger) m, w))) = observer w @ new \<and>
      changes (state m) new \<and>
      state (fst (wifi_run ops (setStateCallback (Some logger) m, w))) = last (state m # new)"
    using run_tracks [of "setStateCallback (Some logger) m" ops w]
    by (simp add: setStateCallback_def)
  ultimately show ?thesis by blast
qed

subsection \<open>The outcome of begin\<close>

text \<open>
  Claim C2, as stated, fails in its second half. Here the adapter reports connected only at
  the last read that \<^verbatim>\<open>begin\<close> makes, read number 61, which comes 30500 ms after the start:
  the timeout of 30000 ms has elapsed without the adapter connecting, and \<^verbatim>\<open>begin\<close> still
  returns true, in the state CONNECTED, because each round of its loop asks the adapter
  before it looks at the elapsed time.
\<close>

theorem begin_connects_after_timeout:
  "WiFiManager_begin (Some ''net'') (Some ''key'') (setStateCallback (Some logger) WiFiManager_new)
     \<lparr>clock = 1000, polls = 0, adapter = (\<lambda>i. i = 61), calls = [], observer = []\<rparr> =
     (True,
      \<lparr>ssid = Some ''net'', password = Some ''key'', state = CONNECTED,
       stateCallback = Some logger, lastConnectAttempt = 0, reconnectAttempts = 0\<rparr>,
      \<lparr>clock = 31500, polls = 62, adapter = (\<lambda>i. i = 61),
       calls = [(1000, WiFi_mode_STA), (1000, WiFi_begin (Some ''net'') (Some ''key''))],
       observer = [CONNECTING, CONNECTED]\<rparr>) \<and>
   unat WIFI_TIMEOUT_MS = 30000"
  by (simp add: setStateCallback_def WiFiManager_new_def logger_def WiFiManager_begin_def
      Let_def WiFi_call_def begin_loop.simps updateState_def WiFi_status_def millis_def
      delay_def WIFI_TIMEOUT_MS_def)

text \<open>
  Claim C2, amended. A call of \<^verbatim>\<open>begin(ssid, password)\<close>, on a manager that is not in the
  state CONNECTING, first moves the state to CONNECTING and then asks the adapter every
  500 ms, read number \<open>k\<close> after \<open>500 * k\<close> ms, at most 62 times: the reads made until the
  timeout of 30000 ms has elapsed are the numbers 0 to 60, and a last one, number 61, is
  made at 30500 ms, before the timeout check gives up. \<^verbatim>\<open>begin\<close> returns true exactly when
  one of the reads it makes says connected, so whenever the adapter reports connected at a
  read made within the timeout, and also when it does so only at the last read; then the
  state is CONNECTED and \<open>reconnectAttempts\<close> is 0. When none of the 62 reads says
  connected, \<^verbatim>\<open>begin\<close> returns false and the state is ERROR. The handler has been called
  with CONNECTING and then with the final state, and with nothing else. The state
  CONNECTING is held only inside \<^verbatim>\<open>begin\<close>: no run of calls from a fresh manager ends in it.
\<close>

theorem begin_outcome:
  assumes "stateCallback m = Some logger" and "state m \<noteq> CONNECTING"
  shows "fst (WiFiManager_begin s p m w) = (\<exists>k<62. adapter w (polls w + k)) \<and>
    ((\<exists>k. 500 * k \<le> unat WIFI_TIMEOUT_MS \<and> adapter w (polls w + k)) \<longrightarrow>
       fst (WiFiManager_begin s p m w)) \<and>
    state (fst (snd (WiFiManager_begin s p m w))) =
      (if fst (WiFiManager_begin s p m w) then CONNECTED else ERROR) \<and>
    reconnectAttempts (fst (snd (WiFiManager_begin s p m w))) =
      (if fst (WiFiManager_begin s p m w) then 0 else reconnectAttempts m) \<and>
    observer (snd (snd (WiFiManager_begin s p m w))) =
      observer w @ [CONNECTING, if fst (WiFiManager_begin s p m w) then CONNECTED else ERROR] \<and>
    ssid (fst (snd (WiFiManager_begin s p m w))) = s \<and>
    password (fst (snd (WiFiManager_begin s p m w))) = p \<and>
    polls w < polls (snd (snd (WiFiManager_begin s p m w))) \<and>
    polls (snd (snd (WiFiManager_begin s p m w))) \<le> polls w + 62 \<and>
    clock (snd (snd (WiFiManager_begin s p m w))) =
      clock w + 500 * (polls (snd (snd (WiFiManager_begin s p m w))) - Suc (polls w)) \<and>
    state (fst (wifi_run ops (m, w'))) \<noteq> CONNECTING \<and>
    state (fst (wifi_run ops (setStateCallback (Some logger) WiFiManager_new, w'))) \<noteq> CONNECTING \<and>
    (adapter w (polls w + 61) \<longrightarrow> fst (WiFiManager_begin s p m w)) \<and>
    ((\<forall>k<62. \<not> adapter w (polls w + k)) \<longrightarrow>
       \<not> fst (WiFiManager_begin s p m w) \<and>
       state (fst (snd (WiFiManager_begin s p m w))) = ERROR \<and>
       observer (snd (snd (WiFiManager_begin s p m w))) = observer w @ [CONNECTING, ERROR])"
proof -
  have early: "fst (WiFiManager_begin s p m w)"
    if "\<exists>k. 500 * k \<le> unat WIFI_TIMEOUT_MS \<and> adapter w (polls w + k)"
  proof -
    from that obtain k where "500 * k \<le> 30000" and "adapter w (polls w + k)"
      by (auto simp add: WIFI_TIMEOUT_MS_def)
    then have "k < 62 \<and> adapter w (polls w + k)" by simp
    then show ?thesis unfolding begin_ok by blast
  qed
  show ?thesis
    using assms early begin_world [of s p m w] begin_observer [of m s p w]
      begin_ok [of s p m w] run_not_connecting [of m ops w']
      fresh_run_not_connecting [of ops "Some logger" w']
    by (auto simp add: begin_manager)
qed

theorem begin_outcome_witness:
  "stateCallback (setStateCallback (Some logger) WiFiManager_new) = Some logger \<and>
   state (setStateCallback (Some logger) WiFiManager_new) \<noteq> CONNECTING \<and>
   WiFiManager_begin (Some ''net'') (Some ''key'') (setStateCallback (Some logger) WiFiManager_new)
     \<lparr>clock = 1000, polls = 0, adapter = (\<lambda>i. 6 \<le> i), calls = [], observer = []\<rparr> =
     (True,
      \<lparr>ssid = Some ''net'', password = Some ''key'', state = CONNECTED,
       stateCallback = Some logger, lastConnectAttempt = 0, reconnectAttempts = 0\<rparr>,
      \<lparr>clock = 4000, polls = 7, adapter = (\<lambda>i. 6 \<le> i),
       calls = [(1000, WiFi_mode_STA), (1000, WiFi_begin (Some ''net'') (Some ''key''))],
       observer = [CONNECTING, CONNECTED]\<rparr>) \<and>
   WiFiManager_begin (Some ''net'') (Some ''key'') (setStateCallback (Some logger) WiFiManager_new)
     \<lparr>clock = 1000, polls = 0, adapter = (\<lambda>i. False), calls = [], observer = []\<rparr> =
     (False,
      \<lparr>ssid = Some ''net'', password = Some ''key'', state = ERROR,
       stateCallback = Some logger, lastConnectAttempt = 0, reconnectAttempts = 0\<rparr>,
      \<lparr>clock = 31500, polls = 62, adapter = (\<lambda>i. False),
       calls = [(1000, WiFi_mode_STA), (1000, WiFi_begin (Some ''net'') (Some ''key''))],
       observer = [CONNECTING, ERROR]\<rparr>)"
  using begin_outcome
    [of "setStateCallback (Some logger) WiFiManager_new" "Some ''net''" "Some ''key''"
      "\<lparr>clock = 1000, polls = 0, adapter = (\<lambda>i. 6 \<le> i), calls = [], observer = []\<rparr>"]
    begin_outcome
    [of "setStateCallback (Some logger) WiFiManager_new" "Some ''net''" "Some ''key''"
      "\<lparr>clock = 1000, polls = 0, adapter = (\<lambda>i. False), calls = [], observer = []\<rparr>"]
  by (simp add: setStateCallback_def WiFiManager_new_def logger_def WiFiManager_begin_def
      Let_def WiFi_call_def begin_loop.simps updateState_def WiFi_status_def millis_def
      delay_def WIFI_TIMEOUT_MS_def)

subsection \<open>Polling while connected\<close>

text \<open>
  Claim C5, as stated, fails: the poll that detects the lost link goes on, in the same call,
  to the second \<^verbatim>\<open>if\<close> of \<^verbatim>\<open>loop\<close>. Here \<^verbatim>\<open>begin\<close> connects at once, the link is lost, and
  a poll one minute later finds it lost (report 1) and reconnects at once (report 2): during
  that poll the handler is called with DISCONNECTED, CONNECTING and CONNECTED, and the state
  after the poll is CONNECTED.
\<close>

theorem poll_lost_link_reconnects_at_once:
  "state (fst (wifi_run [Begin (Some ''net'') (Some ''key''), Delay 60000]
      (setStateCallback (Some logger) WiFiManager_new,
       \<lparr>clock = 0, polls = 0, adapter = (\<lambda>i. i \<noteq> 1), calls = [], observer = []\<rparr>))) = CONNECTED \<and>
   observer (snd (wifi_run [Begin (Some ''net'') (Some ''key''), Delay 60000]
      (setStateCallback (Some logger) WiFiManager_new,
       \<lparr>clock = 0, polls = 0, adapter = (\<lambda>i. i \<noteq> 1), calls = [], observer = []\<rparr>))) =
     [CONNECTING, CONNECTED] \<and>
   state (fst (wifi_run [Begin (Some ''net'') (Some ''key''), Delay 60000, Poll]
      (setStateCallback (Some logger) WiFiManager_new,
       \<lparr>clock = 0, polls = 0, adapter = (\<lambda>i. i \<noteq> 1), calls = [], observer = []\<rparr>))) = CONNECTED \<and>
   observer (snd (wifi_run [Begin (Some ''net'') (Some ''key''), Delay 60000, Poll]
      (setStateCallback (Some logger) WiFiManager_new,
       \<lparr>clock = 0, polls = 0, adapter = (\<lambda>i. i \<noteq> 1), calls = [], observer = []\<rparr>))) =
     [CONNECTING, CONNECTED, DISCONNECTED, CONNECTING, CONNECTED]"
  by (simp add: setStateCallback_def WiFiManager_new_def logger_def link_check_eq retry_due_def
      loop_eq reconnect_eq WiFiManager_begin_def Let_def WiFi_call_def begin_loop.simps
      updateState_def WiFi_status_def millis_def delay_def RECONNECT_DELAY_MS_def
      WIFI_TIMEOUT_MS_def)

text \<open>
  Claim C5, amended. A poll made in the state CONNECTED asks the adapter once. When the
  adapter still reports connected, the poll changes nothing but the count of reports read.
  When it reports the link lost, the state first moves to DISCONNECTED and the handler is
  called with DISCONNECTED. The poll ends there, in DISCONNECTED with that one handler
  call, unless the backoff since \<open>lastConnectAttempt\<close> has elapsed and an SSID is stored;
  then the same poll goes on to a connect attempt, the handler is called with CONNECTING
  and with the final state as well, and the poll ends in CONNECTED or ERROR.
\<close>

theorem poll_connected:
  assumes "state m = CONNECTED" and "stateCallback m = Some logger"
  shows "(adapter w (polls w) \<longrightarrow> WiFiManager_loop m w = (m, w\<lparr>polls := polls w + 1\<rparr>)) \<and>
    (\<not> adapter w (polls w) \<longrightarrow>
       link_check m w =
         (m\<lparr>state := DISCONNECTED\<rparr>,
          w\<lparr>polls := polls w + 1, observer := observer w @ [DISCONNECTED]\<rparr>) \<and>
       (if millis w - lastConnectAttempt m > RECONNECT_DELAY_MS \<and> ssid m \<noteq> None then
          (state (fst (WiFiManager_loop m w)) = CONNECTED \<or>
           state (fst (WiFiManager_loop m w)) = ERROR) \<and>
          observer (snd (WiFiManager_loop m w)) =
            observer w @ [DISCONNECTED, CONNECTING, state (fst (WiFiManager_loop m w))]
        else
          state (fst (WiFiManager_loop m w)) = DISCONNECTED \<and>
          observer (snd (WiFiManager_loop m w)) = observer w @ [DISCONNECTED]))"
proof (cases "adapter w (polls w)")
  case True
  then have "link_check m w = (m, w\<lparr>polls := polls w + 1\<rparr>)"
    using assms by (simp add: link_check_eq)
  then show ?thesis
    using True assms by (simp add: loop_eq retry_due_def)
next
  case False
  let ?m1 = "m\<lparr>state := DISCONNECTED\<rparr>"
  let ?w1 = "w\<lparr>polls := Suc (polls w), observer := observer w @ [DISCONNECTED]\<rparr>"
  have lc: "link_check m w = (?m1, ?w1)"
    using False assms by (simp add: link_check_eq updateState_logger)
  have due: "retry_due ?m1 ?w1 = (millis w - lastConnectAttempt m > RECONNECT_DELAY_MS)"
    by (simp add: retry_due_def millis_def)
  show ?thesis
  proof (cases "millis w - lastConnectAttempt m > RECONNECT_DELAY_MS \<and> ssid m \<noteq> None")
    case attempt: True
    let ?b = "WiFiManager_begin (ssid m) (password m)
        (?m1\<lparr>lastConnectAttempt := millis w, reconnectAttempts := reconnectAttempts m + 1\<rparr>) ?w1"
    have loop: "WiFiManager_loop m w = snd ?b"
      using attempt by (auto simp add: loop_eq lc due reconnect_eq)
    have st: "state (fst (snd ?b)) = (if fst ?b then CONNECTED else ERROR)"
      by (simp add: begin_manager)
    have "observer (snd (snd ?b)) =
        (observer w @ [DISCONNECTED]) @ [CONNECTING] @ [if fst ?b then CONNECTED else ERROR]"
      using assms by (simp add: begin_observer)
    then have "observer (snd (snd ?b)) = observer w @ [DISCONNECTED, CONNECTING, state (fst (snd ?b))]"
      by (simp add: st)
    then show ?thesis
      using False attempt lc st by (simp add: loop)
  next
    case no_attempt: False
    then have "WiFiManager_loop m w =
        (?m1\<lparr>lastConnectAttempt :=
            if millis w - lastConnectAttempt m > RECONNECT_DELAY_MS then millis w
            else lastConnectAttempt m\<rparr>, ?w1)"
      by (auto simp add: loop_eq lc due reconnect_eq)
    then show ?thesis
      using False no_attempt lc by simp
  qed
qed

theorem poll_connected_witness:
  "state
      \<lparr>ssid = Some ''net'', password = Some ''key'', state = CONNECTED,
        stateCallback = Some logger, lastConnectAttempt = 58000, reconnectAttempts = 0\<rparr> = CONNECTED \<and>
   stateCallback
      \<lparr>ssid = Some ''net'', password = Some ''key'', state = CONNECTED,
        stateCallback = Some logger, lastConnectAttempt = 58000, reconnectAttempts = 0\<rparr> = Some logger \<and>
   state (fst (WiFiManager_loop
      \<lparr>ssid = Some ''net'', password = Some ''key'', state = CONNECTED,
        stateCallback = Some logger, lastConnectAttempt = 58000, reconnectAttempts = 0\<rparr>
      \<lparr>clock = 60000, polls = 4, adapter = (\<lambda>i. True), calls = [], observer = []\<rparr>)) = CONNECTED \<and>
   observer (snd (WiFiManager_loop
      \<lparr>ssid = Some ''net'', password = Some ''key'', state = CONNECTED,
        stateCallback = Some logger, lastConnectAttempt = 58000, reconnectAttempts = 0\<rparr>
      \<lparr>clock = 60000, polls = 4, adapter = (\<lambda>i. True), calls = [], observer = []\<rparr>)) = [] \<and>
   state (fst (WiFiManager_loop
      \<lparr>ssid = Some ''net'', password = Some ''key'', state = CONNECTED,
        stateCallback = Some logger, lastConnectAttempt = 58000, reconnectAttempts = 0\<rparr>
      \<lparr>clock = 60000, polls = 4, adapter = (\<lambda>i. False), calls = [], observer = []\<rparr>)) = DISCONNECTED \<and>
   observer (snd (WiFiManager_loop
      \<lparr>ssid = Some ''net'', password = Some ''key'', state = CONNECTED,
        stateCallback = Some logger, lastConnectAttempt = 58000, reconnectAttempts = 0\<rparr>
      \<lparr>clock = 60000, polls = 4, adapter = (\<lambda>i. False), calls = [], observer = []\<rparr>)) = [DISCONNECTED] \<and>
   state (fst (WiFiManager_loop
      \<lparr>ssid = Some ''net'', password = Some ''key'', state = CONNECTED,
        stateCallback = Some logger, lastConnectAttempt = 58000, reconnectAttempts = 0\<rparr>
      \<lparr>clock = 70000, polls = 4, adapter = (\<lambda>i. i = 5), calls = [], observer = []\<rparr>)) = CONNECTED \<and>
   observer (snd (WiFiManager_loop
      \<lparr>ssid = Some ''net'', password = Some ''key'', state = CONNECTED,
        stateCallback = Some logger, lastConnectAttempt = 58000, reconnectAttempts = 0\<rparr>
      \<lparr>clock = 70000, polls = 4, adapter = (\<lambda>i. i = 5), calls = [], observer = []\<rparr>)) = [DISCONNECTED, CONNECTING, CONNECTED]"
  using poll_connected
    [of "\<lparr>ssid = Some ''net'', password = Some ''key'', state = CONNECTED,
        stateCallback = Some logger, lastConnectAttempt = 58000, reconnectAttempts = 0\<rparr>"
      "\<lparr>clock = 60000, polls = 4, adapter = (\<lambda>i. True), calls = [], observer = []\<rparr>"]
    poll_connected
    [of "\<lparr>ssid = Some ''net'', password = Some ''key'', state = CONNECTED,
        stateCallback = Some logger, lastConnectAttempt = 58000, reconnectAttempts = 0\<rparr>"
      "\<lparr>clock = 60000, polls = 4, adapter = (\<lambda>i. False), calls = [], observer = []\<rparr>"]
    poll_connected
    [of "\<lparr>ssid = Some ''net'', password = Some ''key'', state = CONNECTED,
        stateCallback = Some logger, lastConnectAttempt = 58000, reconnectAttempts = 0\<rparr>"
      "\<lparr>clock = 70000, polls = 4, adapter = (\<lambda>i. i = 5), calls = [], observer = []\<rparr>"]
  by (simp add: logger_def link_check_eq retry_due_def loop_eq reconnect_eq
      WiFiManager_begin_def Let_def WiFi_call_def begin_loop.simps updateState_def
      WiFi_status_def millis_def delay_def RECONNECT_DELAY_MS_def WIFI_TIMEOUT_MS_def)

subsection \<open>Spacing of reconnect attempts\<close>

text \<open>
  Claim C6. A reconnect attempt is a call of \<^verbatim>\<open>WiFi.begin\<close> made by a poll, and \<open>B\<close> is the
  reconnect delay of \<^verbatim>\<open>config.h\<close>. In every run of calls on the manager (polls, with any
  delays and any other calls between them) and for every sequence of adapter reports, two
  consecutive calls of \<^verbatim>\<open>WiFi.begin\<close> made by polls are more than \<open>B\<close> milliseconds of clock
  time apart, hence at least \<open>B\<close>; in a run of polls, disconnects and delays these are all
  the calls of \<^verbatim>\<open>WiFi.begin\<close> of the run. One poll calls \<^verbatim>\<open>WiFi.begin\<close> at most once, at the
  clock value it read, and only when it finds the state DISCONNECTED or ERROR after the
  link check and the elapsed time since \<open>lastConnectAttempt\<close> exceeds \<open>B\<close>; it has then
  stored that clock value in \<open>lastConnectAttempt\<close>. A poll changes \<open>lastConnectAttempt\<close> in
  no other way.
\<close>

theorem reconnect_attempts_spaced:
  "spaced (unat RECONNECT_DELAY_MS) (attempt_times ops (m, w)) \<and>
   (polling ops \<longrightarrow>
      begin_times (drop (length (calls w)) (calls (snd (wifi_run ops (m, w))))) =
        attempt_times ops (m, w) \<and>
      spaced (unat RECONNECT_DELAY_MS)
        (begin_times (drop (length (calls w)) (calls (snd (wifi_run ops (m, w))))))) \<and>
   (begin_times (drop (length (calls w)) (calls (snd (WiFiManager_loop m w)))) = [] \<or>
    begin_times (drop (length (calls w)) (calls (snd (WiFiManager_loop m w)))) = [clock w] \<and>
    (state (fst (link_check m w)) = DISCONNECTED \<or> state (fst (link_check m w)) = ERROR) \<and>
    millis w - lastConnectAttempt m > RECONNECT_DELAY_MS \<and>
    lastConnectAttempt (fst (WiFiManager_loop m w)) = millis w) \<and>
   begin_times (drop (length (calls w)) (calls (snd (WiFiManager_loop m w)))) =
     (if poll_attempts m w then [clock w] else []) \<and>
   (lastConnectAttempt (fst (WiFiManager_loop m w)) = lastConnectAttempt m \<or>
    lastConnectAttempt (fst (WiFiManager_loop m w)) = millis w)"
proof -
  have all: "spaced (unat RECONNECT_DELAY_MS) (attempt_times ops (m, w))"
    using attempts_spaced [of ops m w] by (simp add: RECONNECT_DELAY_MS_def)
  have run: "begin_times (drop (length (calls w)) (calls (snd (wifi_run ops (m, w))))) =
      attempt_times ops (m, w)" if "polling ops"
    using run_calls [OF that, of m w] by auto
  have due: "millis w - lastConnectAttempt m > RECONNECT_DELAY_MS"
    and st: "state (fst (link_check m w)) = DISCONNECTED \<or> state (fst (link_check m w)) = ERROR"
    and stamp: "lastConnectAttempt (fst (WiFiManager_loop m w)) = millis w"
    if "poll_attempts m w"
    using poll_attempts_due [OF that]
    by (simp_all add: retry_due_def link_check_world link_check_manager loop_last
        split: if_splits)
  have one: "begin_times (drop (length (calls w)) (calls (snd (WiFiManager_loop m w)))) =
     (if poll_attempts m w then [clock w] else [])"
    by (rule poll_begin_times)
  have last: "lastConnectAttempt (fst (WiFiManager_loop m w)) = lastConnectAttempt m \<or>
    lastConnectAttempt (fst (WiFiManager_loop m w)) = millis w"
    by (simp add: loop_last)
  show ?thesis
  proof (intro conjI impI)
    show "begin_times (drop (length (calls w)) (calls (snd (WiFiManager_loop m w)))) = [] \<or>
      begin_times (drop (length (calls w)) (calls (snd (WiFiManager_loop m w)))) = [clock w] \<and>
      (state (fst (link_check m w)) = DISCONNECTED \<or> state (fst (link_check m w)) = ERROR) \<and>
      millis w - lastConnectAttempt m > RECONNECT_DELAY_MS \<and>
      lastConnectAttempt (fst (WiFiManager_loop m w)) = millis w"
      using due st stamp by (cases "poll_attempts m w") (simp_all add: one)
  qed (use all run one last in simp_all)
qed

theorem reconnect_attempts_spaced_witness:
  "polling [Delay 6000, Poll, Delay 100, Poll, Delay 10, Poll, Delay 6000, Poll] \<and>
   calls (snd (wifi_run [Delay 6000, Poll, Delay 100, Poll, Delay 10, Poll, Delay 6000, Poll]
     (\<lparr>ssid = Some ''net'', password = Some ''key'', state = DISCONNECTED,
      stateCallback = Some logger, lastConnectAttempt = 0, reconnectAttempts = 0\<rparr>,
      \<lparr>clock = 0, polls = 0, adapter = (\<lambda>i. even i), calls = [], observer = []\<rparr>))) =
     [(6000, WiFi_mode_STA), (6000, WiFi_begin (Some ''net'') (Some ''key'')),
      (12110, WiFi_mode_STA), (12110, WiFi_begin (Some ''net'') (Some ''key''))] \<and>
   attempt_times [Delay 6000, Poll, Delay 100, Poll, Delay 10, Poll, Delay 6000, Poll]
     (\<lparr>ssid = Some ''net'', password = Some ''key'', state = DISCONNECTED,
      stateCallback = Some logger, lastConnectAttempt = 0, reconnectAttempts = 0\<rparr>,
      \<lparr>clock = 0, polls = 0, adapter = (\<lambda>i. even i), calls = [], observer = []\<rparr>) = [6000, 12110] \<and>
   spaced (unat RECONNECT_DELAY_MS) [6000, 12110] \<and>
   attempt_times
     [Begin (Some ''net'') (Some ''key''), Delay 6000, Poll, Delay 100, Poll, Delay 6000, Poll]
     (setStateCallback (Some logger) WiFiManager_new,
      \<lparr>clock = 0, polls = 0, adapter = (\<lambda>i. even i), calls = [], observer = []\<rparr>) = [6000, 12100] \<and>
   poll_attempts
     \<lparr>ssid = Some ''net'', password = Some ''key'', state = ERROR,
      stateCallback = Some logger, lastConnectAttempt = 1000, reconnectAttempts = 3\<rparr>
     \<lparr>clock = 6001, polls = 7, adapter = (\<lambda>i. i = 7), calls = [], observer = []\<rparr> \<and>
   calls (snd (WiFiManager_loop
     \<lparr>ssid = Some ''net'', password = Some ''key'', state = ERROR,
      stateCallback = Some logger, lastConnectAttempt = 1000, reconnectAttempts = 3\<rparr>
     \<lparr>clock = 6001, polls = 7, adapter = (\<lambda>i. i = 7), calls = [], observer = []\<rparr>)) =
     [(6001, WiFi_mode_STA), (6001, WiFi_begin (Some ''net'') (Some ''key''))] \<and>
   lastConnectAttempt (fst (WiFiManager_loop
     \<lparr>ssid = Some ''net'', password = Some ''key'', state = ERROR,
      stateCallback = Some logger, lastConnectAttempt = 1000, reconnectAttempts = 3\<rparr>
     \<lparr>clock = 6001, polls = 7, adapter = (\<lambda>i. i = 7), calls = [], observer = []\<rparr>)) = 6001 \<and>
   (6001 :: millis_t) - 1000 > RECONNECT_DELAY_MS"
  using reconnect_attempts_spaced
    [of "[Delay 6000, Poll, Delay 100, Poll, Delay 10, Poll, Delay 6000, Poll]"
      "\<lparr>ssid = Some ''net'', password = Some ''key'', state = DISCONNECTED,
      stateCallback = Some logger, lastConnectAttempt = 0, reconnectAttempts = 0\<rparr>"
      "\<lparr>clock = 0, polls = 0, adapter = (\<lambda>i. even i), calls = [], observer = []\<rparr>"]
    reconnect_attempts_spaced
    [of "[Begin (Some ''net'') (Some ''key''), Delay 6000, Poll, Delay 100, Poll, Delay 6000, Poll]"
      "setStateCallback (Some logger) WiFiManager_new"
      "\<lparr>clock = 0, polls = 0, adapter = (\<lambda>i. even i), calls = [], observer = []\<rparr>"]
    reconnect_attempts_spaced
    [of "[]"
      "\<lparr>ssid = Some ''net'', password = Some ''key'', state = ERROR,
      stateCallback = Some logger, lastConnectAttempt = 1000, reconnectAttempts = 3\<rparr>"
      "\<lparr>clock = 6001, polls = 7, adapter = (\<lambda>i. i = 7), calls = [], observer = []\<rparr>"]
  by (simp add: setStateCallback_def WiFiManager_new_def logger_def poll_attempts_def
      link_check_eq retry_due_def loop_eq reconnect_eq WiFiManager_begin_def Let_def
      WiFi_call_def begin_loop.simps updateState_def WiFi_status_def millis_def delay_def
      disconnect_def RECONNECT_DELAY_MS_def WIFI_TIMEOUT_MS_def)

subsection \<open>The reconnect counter\<close>




subsection \<open>isConnected\<close>

text \<open>
  Claim C10. \<^verbatim>\<open>isConnected()\<close> returns true exactly when the stored state is CONNECTED and
  the adapter reports connected at that call. So it returns false while \<^verbatim>\<open>getState()\<close> is
  still CONNECTED whenever the adapter has dropped the link and no poll has seen it yet, and
  a true result implies that \<^verbatim>\<open>getState()\<close> is CONNECTED.
\<close>

theorem isConnected_iff:
  "fst (isConnected m w) = (state m = CONNECTED \<and> adapter w (polls w)) \<and>
   getState m = state m \<and>
   (fst (isConnected m w) \<longrightarrow> getState m = CONNECTED) \<and>
   (state m = CONNECTED \<and> \<not> adapter w (polls w) \<longrightarrow>
      \<not> fst (isConnected m w) \<and> getState m = CONNECTED)"
  by (simp add: isConnected_def getState_def WiFi_status_def)

theorem isConnected_iff_witness:
  "fst (isConnected
     (fst (snd (WiFiManager_begin (Some ''net'') (Some ''key'') WiFiManager_new
        \<lparr>clock = 0, polls = 0, adapter = (\<lambda>i. i \<noteq> 2), calls = [], observer = ()\<rparr>)))
     \<lparr>clock = 40, polls = 1, adapter = (\<lambda>i. i \<noteq> 2), calls = [], observer = ()\<rparr>) \<and>
   \<not> fst (isConnected
     (fst (snd (WiFiManager_begin (Some ''net'') (Some ''key'') WiFiManager_new
        \<lparr>clock = 0, polls = 0, adapter = (\<lambda>i. i \<noteq> 2), calls = [], observer = ()\<rparr>)))
     \<lparr>clock = 50, polls = 2, adapter = (\<lambda>i. i \<noteq> 2), calls = [], observer = ()\<rparr>) \<and>
   getState
     (fst (snd (WiFiManager_begin (Some ''net'') (Some ''key'') WiFiManager_new
        \<lparr>clock = 0, polls = 0, adapter = (\<lambda>i. i \<noteq> 2), calls = [], observer = ()\<rparr>))) = CONNECTED"
  using isConnected_iff
    [of "fst (snd (WiFiManager_begin (Some ''net'') (Some ''key'') WiFiManager_new
        \<lparr>clock = 0, polls = 0, adapter = (\<lambda>i. i \<noteq> 2), calls = [], observer = ()\<rparr>))"
      "\<lparr>clock = 50, polls = 2, adapter = (\<lambda>i. i \<noteq> 2), calls = [], observer = ()\<rparr>"]
    isConnected_iff
    [of "fst (snd (WiFiManager_begin (Some ''net'') (Some ''key'') WiFiManager_new
        \<lparr>clock = 0, polls = 0, adapter = (\<lambda>i. i \<noteq> 2), calls = [], observer = ()\<rparr>))"
      "\<lparr>clock = 40, polls = 1, adapter = (\<lambda>i. i \<noteq> 2), calls = [], observer = ()\<rparr>"]
  by (simp add: WiFiManager_new_def WiFiManager_begin_def Let_def WiFi_call_def begin_loop.simps
      updateState_def WiFi_status_def millis_def WIFI_TIMEOUT_MS_def)

end
